theory Spec2Isabelle
  imports Main "HOL-Library.Word" "HOL-Library.Multiset"
begin

section \<open>Primary-key recovery of a lake tablet, and the hash set's slices with a cached hash\<close>

text \<open>
  The development embeds \<^verbatim>\<open>be/src/storage/lake/lake_primary_key_recover.cpp\<close> and
  \<^verbatim>\<open>be/src/column/hash_set.h\<close>. What these two files call and do not contain is
  either an argument of the definition that calls it (the rowset reader, the handler,
  the update manager, the storage engine, the file system, the schema conversion, the
  hash function), so that a theorem holds for each behaviour it can have, or a
  definition that says it is modelled from the spec. \<^verbatim>\<open>uint32_t\<close> is
  \<^typ>\<open>32 word\<close>, \<^verbatim>\<open>size_t\<close> a \<^typ>\<open>64 word\<close> where it is a hash and a
  \<^typ>\<open>nat\<close> where it is a length or a count, \<^verbatim>\<open>int64_t\<close> identifiers and
  versions are \<^typ>\<open>int\<close>.
\<close>

subsection \<open>Status and StatusOr\<close>

datatype error = IOError string | NotFound string | Corruption string | InternalError string

datatype Status = OK | Error error

text \<open>\<^verbatim>\<open>StatusOr<T>\<close> is \<open>error + T\<close>; \<^verbatim>\<open>res.status()\<close> of a failed result:\<close>

type_synonym 'a StatusOr = "error + 'a"

subsection \<open>Rowsets and their comparison id\<close>

type_synonym uint32 = "32 word"

text \<open>
  The two fields of \<^verbatim>\<open>RowsetMetadataPB\<close> the comparator reads. The compaction
  lineage is an optional protobuf field: \<^verbatim>\<open>has_max_compact_input_rowset_id()\<close> is
  \<open>max_compact_input_rowset_id m \<noteq> None\<close>.
\<close>

record RowsetMetadataPB =
  id' :: uint32
  max_compact_input_rowset_id :: "uint32 option"

record Rowset =
  metadata :: RowsetMetadataPB

text \<open>
  Modelled from the spec: \<^verbatim>\<open>Rowset::id\<close> (storage/lake/rowset.h is not among the
  sources), the identifier the rowset carries. It is what line 88 hands to the handler.
\<close>

definition rowset_id :: "Rowset \<Rightarrow> uint32" where
  "rowset_id r = id' (metadata r)"

text \<open>
  Lines 62-67: if the rowset was generated by compaction, the max compact input rowset id
  is its compare id, else its own id.
\<close>

definition comp_id :: "Rowset \<Rightarrow> uint32" where
  "comp_id a =
     (case max_compact_input_rowset_id (metadata a) of
        Some m \<Rightarrow> m
      | None \<Rightarrow> id' (metadata a))"

text \<open>The lambda of lines 58-69.\<close>

definition rowset_less :: "Rowset \<Rightarrow> Rowset \<Rightarrow> bool" where
  "rowset_less a b = (comp_id a < comp_id b)"

subsection \<open>std::sort\<close>

text \<open>
  \<^verbatim>\<open>std::sort\<close> is the C++ library's. It reads the elements through the comparator
  only, returns a permutation of the range that is ordered under the comparator, and
  promises nothing about the order of elements the comparator calls equivalent. The
  model is insertion sort, which is what libstdc++ runs on a range of at most 16 elements:
  each element in turn moves left past the elements of the sorted prefix that it is
  smaller than, and stops at the first that it is not smaller than. The prefix is held
  newest-first, so the walk towards the front of the range is a walk down the list.
  On a longer range libstdc++ partitions first (introsort), and rowsets with equal
  comparison ids can then come out in another order than the model's: the model is the
  code up to the order of equivalent rowsets. The theorems on the order of the result
  use no more than the postcondition (see \<open>ascending_of_postcondition\<close> and
  \<open>sorted_key_unique\<close> below); the one run that depends on the algorithm is a range
  of two equivalent elements, where the comparator answers false and nothing is moved.
\<close>

fun linear_insert :: "('a \<Rightarrow> 'a \<Rightarrow> bool) \<Rightarrow> 'a \<Rightarrow> 'a list \<Rightarrow> 'a list" where
  "linear_insert cmp v [] = [v]"
| "linear_insert cmp v (e # es) =
     (if cmp v e then e # linear_insert cmp v es else v # e # es)"

fun insertion_sort :: "('a \<Rightarrow> 'a \<Rightarrow> bool) \<Rightarrow> 'a list \<Rightarrow> 'a list \<Rightarrow> 'a list" where
  "insertion_sort cmp prefix [] = rev prefix"
| "insertion_sort cmp prefix (v # rest) =
     insertion_sort cmp (linear_insert cmp v prefix) rest"

definition std_sort :: "('a \<Rightarrow> 'a \<Rightarrow> bool) \<Rightarrow> 'a list \<Rightarrow> 'a list" where
  "std_sort cmp xs = insertion_sort cmp [] xs"

subsection \<open>sort_rowsets\<close>

text \<open>Lines 57-71. The vector is sorted in place; the model returns it with the status.\<close>

definition sort_rowsets :: "Rowset list \<Rightarrow> Status \<times> Rowset list" where
  "sort_rowsets rowsets = (OK, std_sort rowset_less rowsets)"

subsection \<open>Tablet metadata and the recovery object\<close>

text \<open>
  Of \<^verbatim>\<open>TabletMetadataPB\<close> the file reads the version and the schema and clears the
  delete-vector metadata. The schema message and the delete-vector message are left
  open (\<open>'s\<close>, \<open>'d\<close>); a cleared optional message field is \<open>None\<close>.
\<close>

record ('s, 'd) TabletMetadata =
  version :: int
  schema :: 's
  delvec_meta :: "'d option"

text \<open>
  Modelled from the spec: \<^verbatim>\<open>clear_delvec_meta\<close> (generated from the protobuf schema,
  not among the sources) clears the delete-vector metadata of the working snapshot.
\<close>

definition clear_delvec_meta :: "('s, 'd) TabletMetadata \<Rightarrow> ('s, 'd) TabletMetadata" where
  "clear_delvec_meta m = m\<lparr>delvec_meta := None\<rparr>"

record DelVector =
  dv_version :: int
  dv_rowids :: "uint32 list"

text \<open>
  Modelled from the spec: \<^verbatim>\<open>DelVector::init\<close> (storage/del_vector.cpp is not among
  the sources). The spec's DelVector is a versioned record with a sorted row-id list,
  initialised with the target version and the row-id list, sorted ascending.
\<close>

definition DelVector_init :: "int \<Rightarrow> uint32 list \<Rightarrow> DelVector" where
  "DelVector_init v del_ids = \<lparr>dv_version = v, dv_rowids = sort del_ids\<rparr>"

text \<open>
  Modelled from the spec: \<^verbatim>\<open>MetaFileBuilder::append_delvec\<close> (storage/lake/meta_file.cpp
  is not among the sources) queues the DelVector for commit, keyed by its rowset id.
\<close>

record MetaFileBuilder =
  delvecs :: "(uint32 \<times> DelVector) list"

definition append_delvec :: "MetaFileBuilder \<Rightarrow> DelVector \<Rightarrow> uint32 \<Rightarrow> MetaFileBuilder" where
  "append_delvec b delvec rid = b\<lparr>delvecs := delvecs b @ [(rid, delvec)]\<rparr>"

text \<open>The members \<^verbatim>\<open>_metadata\<close>, \<^verbatim>\<open>_tablet->id()\<close> and \<^verbatim>\<open>_builder\<close>.\<close>

record ('s, 'd) LakePrimaryKeyRecover =
  m_metadata :: "('s, 'd) TabletMetadata"
  m_tablet_id :: int
  m_builder :: MetaFileBuilder

subsection \<open>pre_cleanup\<close>

text \<open>Of a \<^verbatim>\<open>DataDir\<close> line 41 reads \<^verbatim>\<open>get_persistent_index_path()\<close>.\<close>

record DataDir =
  persistent_index_path :: string

text \<open>
  \<^verbatim>\<open>strings::Substitute\<close> puts its arguments in the place of \<^verbatim>\<open>$0\<close> and \<^verbatim>\<open>$1\<close>,
  an integer in decimal.
\<close>

definition digit :: "nat \<Rightarrow> char" where
  "digit n = ''0123456789'' ! n"

fun decimal_nat :: "nat \<Rightarrow> string" where
  "decimal_nat n =
     (if n < 10 then [digit n] else decimal_nat (n div 10) @ [digit (n mod 10)])"

declare decimal_nat.simps [simp del]

definition decimal :: "int \<Rightarrow> string" where
  "decimal i = (if i < 0 then CHR ''-'' # decimal_nat (nat (- i)) else decimal_nat (nat i))"

text \<open>\<^verbatim>\<open>strings::Substitute("$0/$1/", data_dir->get_persistent_index_path(), _tablet->id())\<close>\<close>

definition tablet_pk_path :: "DataDir \<Rightarrow> int \<Rightarrow> string" where
  "tablet_pk_path data_dir tid = persistent_index_path data_dir @ ''/'' @ decimal tid @ ''/''"

text \<open>
  What \<^verbatim>\<open>pre_cleanup\<close> does to the world outside the object, in the order it does it.
\<close>

datatype call =
    Clear_delvec_meta
  | Try_remove_primary_index_cache int
  | Get_persistent_index_store int
  | Remove_tablet_persistent_index_meta DataDir int
  | Remove_all string

text \<open>
  Lines 30-45. The four collaborators are arguments: the update manager's cache eviction
  (its result, of any type \<open>'r\<close>, is dropped by the statement on line 35), the storage
  engine's lookup of the persistent-index store (\<open>None\<close> is \<^verbatim>\<open>nullptr\<close>), the removal
  of the index meta and \<^verbatim>\<open>fs::remove_all\<close>. They act on a world \<open>'w\<close> of their own
  (the cache, the meta store, the files), which each call hands to the next.
  \<^verbatim>\<open>RETURN_IF_ERROR\<close> returns the status of its argument when it is not OK.
  The result is the status, the object, the world and the calls made.
\<close>

definition pre_cleanup ::
  "(int \<Rightarrow> 'w \<Rightarrow> 'r \<times> 'w) \<Rightarrow> (int \<Rightarrow> 'w \<Rightarrow> DataDir option) \<Rightarrow>
   (DataDir \<Rightarrow> int \<Rightarrow> 'w \<Rightarrow> Status \<times> 'w) \<Rightarrow> (string \<Rightarrow> 'w \<Rightarrow> Status \<times> 'w) \<Rightarrow>
   ('s, 'd) LakePrimaryKeyRecover \<Rightarrow> 'w \<Rightarrow>
   Status \<times> ('s, 'd) LakePrimaryKeyRecover \<times> 'w \<times> call list" where
  "pre_cleanup try_remove_primary_index_cache get_persistent_index_store
       remove_tablet_persistent_index_meta remove_all this w =
     (let this1 = this\<lparr>m_metadata := clear_delvec_meta (m_metadata this)\<rparr>;
          tid = m_tablet_id this1;
          w1 = snd (try_remove_primary_index_cache tid w);
          calls1 = [Clear_delvec_meta, Try_remove_primary_index_cache tid,
                    Get_persistent_index_store tid]
      in case get_persistent_index_store tid w1 of
           None \<Rightarrow> (OK, this1, w1, calls1)
         | Some data_dir \<Rightarrow>
             (let (st2, w2) = remove_tablet_persistent_index_meta data_dir tid w1;
                  calls2 = calls1 @ [Remove_tablet_persistent_index_meta data_dir tid]
              in if st2 \<noteq> OK then (st2, this1, w2, calls2)
                 else
                   (let (st3, w3) = remove_all (tablet_pk_path data_dir tid) w2;
                        calls3 = calls2 @ [Remove_all (tablet_pk_path data_dir tid)]
                    in if st3 \<noteq> OK then (st3, this1, w3, calls3)
                       else (OK, this1, w3, calls3))))"

subsection \<open>generate_pkey_schema\<close>

type_synonym ColumnId = uint32

text \<open>
  The loop of lines 51-53 over the vector of \<open>n\<close> zeros made on line 50. The counter
  is an \<^verbatim>\<open>int\<close> that starts at 0 and is compared with a \<^verbatim>\<open>size_t\<close>; the model
  counts in \<^typ>\<open>nat\<close>, which is the counter's value for every number of key columns up
  to \<^verbatim>\<open>INT_MAX\<close>. The cast to \<^verbatim>\<open>ColumnId\<close> is \<open>of_nat\<close>, and the index is
  within the vector.
\<close>

function fill_pk_columns :: "nat \<Rightarrow> nat \<Rightarrow> ColumnId list \<Rightarrow> ColumnId list" where
  "fill_pk_columns i n pk_columns =
     (if i < n then fill_pk_columns (i + 1) n (pk_columns[i := of_nat i]) else pk_columns)"
  by pat_completeness auto
termination
  by (relation "measure (\<lambda>(i, n, pk_columns). n - i)") auto

declare fill_pk_columns.simps [simp del]

text \<open>
  Lines 48-55. The \<^verbatim>\<open>TabletSchema\<close> constructor, \<^verbatim>\<open>num_key_columns\<close> and
  \<^verbatim>\<open>ChunkHelper::convert_schema\<close> are arguments.
\<close>

definition generate_pkey_schema ::
  "('s \<Rightarrow> 't) \<Rightarrow> ('t \<Rightarrow> nat) \<Rightarrow> ('t \<Rightarrow> ColumnId list \<Rightarrow> 'schema) \<Rightarrow>
   ('s, 'd) LakePrimaryKeyRecover \<Rightarrow> 'schema" where
  "generate_pkey_schema make_tablet_schema num_key_columns convert_schema this =
     (let tablet_schema = make_tablet_schema (schema (m_metadata this));
          pk_columns = replicate (num_key_columns tablet_schema) 0;
          pk_columns = fill_pk_columns 0 (num_key_columns tablet_schema) pk_columns
      in convert_schema tablet_schema pk_columns)"

subsection \<open>rowset_iterator\<close>

text \<open>
  The loop of lines 82-89 over the sorted rowsets. \<open>get_iters\<close> is
  \<^verbatim>\<open>rowset->get_each_segment_iterator(pkey_schema, &stats)\<close>; it and the handler act on a
  world \<open>'w\<close> (the statistics, the storage, what the handler's closure holds). Besides the
  status and the world the model returns the calls made: each rowset whose iterators were
  asked for, with the error if that failed, and each rowset the handler was invoked on,
  with the status the handler returned.
\<close>

type_synonym 'w run =
  "Status \<times> (Rowset \<times> error option) list \<times> (Rowset \<times> Status) list \<times> 'w"

fun for_each_rowset ::
  "(Rowset \<Rightarrow> 'w \<Rightarrow> 'it list StatusOr \<times> 'w) \<Rightarrow>
   ('it list \<Rightarrow> 'f list \<Rightarrow> uint32 list \<Rightarrow> uint32 \<Rightarrow> 'w \<Rightarrow> Status \<times> 'w) \<Rightarrow>
   Rowset list \<Rightarrow> 'w \<Rightarrow> 'w run" where
  "for_each_rowset get_iters handler [] w = (OK, [], [], w)"
| "for_each_rowset get_iters handler (rowset # rest) w =
     (case get_iters rowset w of
        (Inl e, w1) \<Rightarrow> (Error e, [(rowset, Some e)], [], w1)
      | (Inr itrs, w1) \<Rightarrow>
          (case handler itrs [] [] (rowset_id rowset) w1 of
             (Error e, w2) \<Rightarrow> (Error e, [(rowset, None)], [(rowset, Error e)], w2)
           | (OK, w2) \<Rightarrow>
               (case for_each_rowset get_iters handler rest w2 of
                  (st, opened, handled, w3) \<Rightarrow>
                    (st, (rowset, None) # opened, (rowset, OK) # handled, w3))))"

text \<open>Lines 73-91. \<^verbatim>\<open>_tablet->get_rowsets(_metadata)\<close> is an argument.\<close>

definition rowset_iterator ::
  "(('s, 'd) TabletMetadata \<Rightarrow> Rowset list) \<Rightarrow>
   ('schema \<Rightarrow> Rowset \<Rightarrow> 'w \<Rightarrow> 'it list StatusOr \<times> 'w) \<Rightarrow>
   ('s, 'd) LakePrimaryKeyRecover \<Rightarrow> 'schema \<Rightarrow>
   ('it list \<Rightarrow> 'f list \<Rightarrow> uint32 list \<Rightarrow> uint32 \<Rightarrow> 'w \<Rightarrow> Status \<times> 'w) \<Rightarrow> 'w \<Rightarrow> 'w run" where
  "rowset_iterator get_rowsets get_each_segment_iterator this pkey_schema handler w =
     (let rowsets = get_rowsets (m_metadata this);
          (st, rowsets) = sort_rowsets rowsets
      in if st \<noteq> OK then (st, [], [], w)
         else for_each_rowset (get_each_segment_iterator pkey_schema) handler rowsets w)"

text \<open>
  Reading a run: the calls of \<^verbatim>\<open>get_each_segment_iterator\<close> with their errors, the
  invocations of the handler with their statuses, and the rowsets of both.
\<close>

definition open_calls :: "'w run \<Rightarrow> (Rowset \<times> error option) list" where
  "open_calls run = fst (snd run)"

definition handler_calls :: "'w run \<Rightarrow> (Rowset \<times> Status) list" where
  "handler_calls run = fst (snd (snd run))"

definition opened_rowsets :: "'w run \<Rightarrow> Rowset list" where
  "opened_rowsets run = map fst (open_calls run)"

definition handled_rowsets :: "'w run \<Rightarrow> Rowset list" where
  "handled_rowsets run = map fst (handler_calls run)"

subsection \<open>finalize_delvec\<close>

text \<open>
  \<^verbatim>\<open>PrimaryIndex::DeletesMap\<close> maps a rowset id to a vector of row ids. The model is
  the list of its entries in the order the range-for of line 95 meets them; the keys of
  a map are distinct.
\<close>

type_synonym DeletesMap = "(uint32 \<times> uint32 list) list"

fun append_delvecs :: "int \<Rightarrow> DeletesMap \<Rightarrow> MetaFileBuilder \<Rightarrow> MetaFileBuilder" where
  "append_delvecs v [] builder = builder"
| "append_delvecs v (new_delete # rest) builder =
     (let del_ids = snd new_delete;
          delvec = DelVector_init v del_ids
      in append_delvecs v rest (append_delvec builder delvec (fst new_delete)))"

text \<open>Lines 94-102.\<close>

definition finalize_delvec ::
  "DeletesMap \<Rightarrow> ('s, 'd) LakePrimaryKeyRecover \<Rightarrow> Status \<times> ('s, 'd) LakePrimaryKeyRecover" where
  "finalize_delvec new_deletes this =
     (OK, this\<lparr>m_builder := append_delvecs (version (m_metadata this)) new_deletes (m_builder this)\<rparr>)"

subsection \<open>Slices with a cached hash\<close>

type_synonym byte = "8 word"
type_synonym size_t = "64 word"

text \<open>
  A \<^verbatim>\<open>Slice\<close> is a pointer and a length into memory; memory maps an address to a byte.
\<close>

record Slice =
  data :: nat
  size' :: nat

definition slice_bytes :: "(nat \<Rightarrow> byte) \<Rightarrow> 'a Slice_scheme \<Rightarrow> byte list" where
  "slice_bytes mem s = map mem [data s ..< data s + size' s]"

text \<open>
  Modelled from the spec: \<^verbatim>\<open>memequal\<close> (util/memcmp.h is not among the sources) is the
  byte-wise content comparison of two ranges: equal lengths and equal bytes.
\<close>

fun bytes_equal :: "(nat \<Rightarrow> byte) \<Rightarrow> nat \<Rightarrow> nat \<Rightarrow> nat \<Rightarrow> bool" where
  "bytes_equal mem p1 p2 0 = True"
| "bytes_equal mem p1 p2 (Suc n) = (mem p1 = mem p2 \<and> bytes_equal mem (Suc p1) (Suc p2) n)"

definition memequal :: "(nat \<Rightarrow> byte) \<Rightarrow> nat \<Rightarrow> nat \<Rightarrow> nat \<Rightarrow> nat \<Rightarrow> bool" where
  "memequal mem p1 size1 p2 size2 = (size1 = size2 \<and> bytes_equal mem p1 p2 size1)"

record SliceWithHash = Slice +
  hash :: size_t

text \<open>
  Line 24, the constructor that computes the hash. \<^verbatim>\<open>SliceHash\<close>
  (column/column_hash.h is not among the sources) is an argument; as the spec has it,
  hashing is defined over the bytes of the key, so the argument is a function of the
  bytes the slice points to.
\<close>

definition SliceWithHash_of :: "(byte list \<Rightarrow> size_t) \<Rightarrow> (nat \<Rightarrow> byte) \<Rightarrow> Slice \<Rightarrow> SliceWithHash" where
  "SliceWithHash_of SliceHash mem src =
     \<lparr>data = data src, size' = size' src, hash = SliceHash (slice_bytes mem src)\<rparr>"

text \<open>Line 25, the constructor that is given the hash.\<close>

definition SliceWithHash_raw :: "nat \<Rightarrow> nat \<Rightarrow> size_t \<Rightarrow> SliceWithHash" where
  "SliceWithHash_raw p s h = \<lparr>data = p, size' = s, hash = h\<rparr>"

text \<open>Lines 28-31.\<close>

definition HashOnSliceWithHash :: "SliceWithHash \<Rightarrow> size_t" where
  "HashOnSliceWithHash s = hash s"

text \<open>Lines 33-40.\<close>

definition EqualOnSliceWithHash :: "(nat \<Rightarrow> byte) \<Rightarrow> SliceWithHash \<Rightarrow> SliceWithHash \<Rightarrow> bool" where
  "EqualOnSliceWithHash mem x y =
     (hash x = hash y \<and> memequal mem (data x) (size' x) (data y) (size' y))"

text \<open>
  Lines 42-64, the same with \<^verbatim>\<open>SliceHashWithSeed<seed>\<close>. The seed is a template
  argument, so both operands of the equality were built with the same seed.
\<close>

definition TSliceWithHash_of ::
  "('seed \<Rightarrow> byte list \<Rightarrow> size_t) \<Rightarrow> 'seed \<Rightarrow> (nat \<Rightarrow> byte) \<Rightarrow> Slice \<Rightarrow> SliceWithHash" where
  "TSliceWithHash_of SliceHashWithSeed seed mem src =
     \<lparr>data = data src, size' = size' src, hash = SliceHashWithSeed seed (slice_bytes mem src)\<rparr>"

definition THashOnSliceWithHash :: "SliceWithHash \<Rightarrow> size_t" where
  "THashOnSliceWithHash s = hash s"

definition TEqualOnSliceWithHash :: "(nat \<Rightarrow> byte) \<Rightarrow> SliceWithHash \<Rightarrow> SliceWithHash \<Rightarrow> bool" where
  "TEqualOnSliceWithHash mem x y =
     (hash x = hash y \<and> memequal mem (data x) (size' x) (data y) (size' y))"

subsection \<open>The rowsets of the spec's scenario C\<close>

text \<open>
  R3 was produced by a compaction whose newest input had id 10 and has the id 7 itself;
  R4 and R5 were written directly, with the ids 9 and 10.
\<close>

definition R3 :: Rowset where
  "R3 = \<lparr>metadata = \<lparr>id' = 7, max_compact_input_rowset_id = Some 10\<rparr>\<rparr>"

definition R4 :: Rowset where
  "R4 = \<lparr>metadata = \<lparr>id' = 9, max_compact_input_rowset_id = None\<rparr>\<rparr>"

definition R5 :: Rowset where
  "R5 = \<lparr>metadata = \<lparr>id' = 10, max_compact_input_rowset_id = None\<rparr>\<rparr>"

subsection \<open>Reading the result of finalize_delvec\<close>

text \<open>
  What a call of \<open>finalize_delvec\<close> added to the builder's queue, and the DelVectors a
  queue holds for one rowset id.
\<close>

definition appended_delvecs ::
  "DeletesMap \<Rightarrow> ('s, 'd) LakePrimaryKeyRecover \<Rightarrow> (uint32 \<times> DelVector) list" where
  "appended_delvecs new_deletes this =
     drop (length (delvecs (m_builder this)))
       (delvecs (m_builder (snd (finalize_delvec new_deletes this))))"

definition delvecs_of :: "uint32 \<Rightarrow> (uint32 \<times> DelVector) list \<Rightarrow> DelVector list" where
  "delvecs_of rid dvs = map snd (filter (\<lambda>p. fst p = rid) dvs)"

subsection \<open>Reading the result of pre_cleanup\<close>

type_synonym ('s, 'd, 'w) cleanup = "Status \<times> ('s, 'd) LakePrimaryKeyRecover \<times> 'w \<times> call list"

definition cleanup_status :: "('s, 'd, 'w) cleanup \<Rightarrow> Status" where
  "cleanup_status res = fst res"

definition cleanup_this :: "('s, 'd, 'w) cleanup \<Rightarrow> ('s, 'd) LakePrimaryKeyRecover" where
  "cleanup_this res = fst (snd res)"

definition cleanup_world :: "('s, 'd, 'w) cleanup \<Rightarrow> 'w" where
  "cleanup_world res = fst (snd (snd res))"

definition cleanup_calls :: "('s, 'd, 'w) cleanup \<Rightarrow> call list" where
  "cleanup_calls res = snd (snd (snd res))"

text \<open>The calls that delete: the index meta's removal and \<^verbatim>\<open>fs::remove_all\<close>.\<close>

definition is_removal :: "call \<Rightarrow> bool" where
  "is_removal c =
     (case c of
        Remove_tablet_persistent_index_meta d t \<Rightarrow> True
      | Remove_all p \<Rightarrow> True
      | _ \<Rightarrow> False)"

text \<open>The calls that concern the persistent-index store: its lookup and the two removals.\<close>

definition touches_store :: "call \<Rightarrow> bool" where
  "touches_store c =
     (case c of
        Clear_delvec_meta \<Rightarrow> False
      | Try_remove_primary_index_cache t \<Rightarrow> False
      | _ \<Rightarrow> True)"

subsection \<open>Objects and collaborators of the examples\<close>

text \<open>
  A recovery object for tablet 10042 at version 5 whose metadata still has delete-vector
  metadata, and two objects that share a schema (three columns, the first two of them
  keys) and nothing else.
\<close>

definition recover0 :: "(unit, unit) LakePrimaryKeyRecover" where
  "recover0 = \<lparr>m_metadata = \<lparr>version = 5, schema = (), delvec_meta = Some ()\<rparr>,
               m_tablet_id = 10042, m_builder = \<lparr>delvecs = []\<rparr>\<rparr>"

definition recover1 :: "(string list \<times> nat, unit) LakePrimaryKeyRecover" where
  "recover1 = \<lparr>m_metadata = \<lparr>version = 5, schema = ([''k1'', ''k2'', ''v1''], 2),
                               delvec_meta = Some ()\<rparr>,
               m_tablet_id = 10042, m_builder = \<lparr>delvecs = []\<rparr>\<rparr>"

definition recover2 :: "(string list \<times> nat, unit) LakePrimaryKeyRecover" where
  "recover2 = \<lparr>m_metadata = \<lparr>version = 8, schema = ([''k1'', ''k2'', ''v1''], 2),
                               delvec_meta = None\<rparr>,
               m_tablet_id = 10043, m_builder = \<lparr>delvecs = []\<rparr>\<rparr>"

text \<open>A schema conversion that picks the named columns.\<close>

definition pick_columns :: "string list \<times> nat \<Rightarrow> ColumnId list \<Rightarrow> string list" where
  "pick_columns tablet_schema cids = map (\<lambda>cid. fst tablet_schema ! unat cid) cids"

text \<open>
  Rowset readers and handlers. Their world is the list of rowset ids the handler has
  seen. One reader opens every rowset, the other fails on one of them; one handler
  accepts every rowset, the other fails.
\<close>

definition open_always ::
  "unit \<Rightarrow> Rowset \<Rightarrow> uint32 list \<Rightarrow> unit list StatusOr \<times> uint32 list" where
  "open_always pkey_schema rowset w = (Inr [], w)"

definition open_fail_on ::
  "Rowset \<Rightarrow> unit \<Rightarrow> Rowset \<Rightarrow> uint32 list \<Rightarrow> unit list StatusOr \<times> uint32 list" where
  "open_fail_on bad pkey_schema rowset w =
     (if rowset = bad then (Inl (IOError ''segment''), w) else (Inr [], w))"

definition handler_record ::
  "unit list \<Rightarrow> unit list \<Rightarrow> uint32 list \<Rightarrow> uint32 \<Rightarrow> uint32 list \<Rightarrow> Status \<times> uint32 list" where
  "handler_record itrs files ids rid w = (OK, w @ [rid])"

definition handler_fail ::
  "unit list \<Rightarrow> unit list \<Rightarrow> uint32 list \<Rightarrow> uint32 \<Rightarrow> uint32 list \<Rightarrow> Status \<times> uint32 list" where
  "handler_fail itrs files ids rid w = (Error (InternalError ''handler''), w @ [rid])"

text \<open>
  Collaborators of \<open>pre_cleanup\<close>. Their world is the list of what has been removed.
\<close>

definition evict_found :: "int \<Rightarrow> string list \<Rightarrow> bool \<times> string list" where
  "evict_found tid w = (True, w)"

definition no_store :: "int \<Rightarrow> string list \<Rightarrow> DataDir option" where
  "no_store tid w = None"

definition local_store :: "int \<Rightarrow> string list \<Rightarrow> DataDir option" where
  "local_store tid w = Some \<lparr>persistent_index_path = ''/data/persistent''\<rparr>"

definition remove_meta_ok :: "DataDir \<Rightarrow> int \<Rightarrow> string list \<Rightarrow> Status \<times> string list" where
  "remove_meta_ok d tid w = (OK, w @ [''meta''])"

definition remove_meta_fails :: "DataDir \<Rightarrow> int \<Rightarrow> string list \<Rightarrow> Status \<times> string list" where
  "remove_meta_fails d tid w = (Error (IOError ''rocksdb''), w)"

definition remove_all_ok :: "string \<Rightarrow> string list \<Rightarrow> Status \<times> string list" where
  "remove_all_ok p w = (OK, w @ [p])"

definition remove_all_fails :: "string \<Rightarrow> string list \<Rightarrow> Status \<times> string list" where
  "remove_all_fails p w = (Error (IOError p), w)"

section \<open>Properties of the sort\<close>

lemma mset_linear_insert: "mset (linear_insert cmp v es) = add_mset v (mset es)"
  by (induction es) auto

lemma set_linear_insert: "set (linear_insert cmp v es) = insert v (set es)"
  by (induction es) auto

lemma mset_insertion_sort:
  "mset (insertion_sort cmp prefix xs) = mset prefix + mset xs"
  by (induction xs arbitrary: prefix) (auto simp: mset_linear_insert)

lemma mset_std_sort: "mset (std_sort cmp xs) = mset xs"
  by (simp add: std_sort_def mset_insertion_sort)

text \<open>A prefix held newest-first is in order when its keys descend.\<close>

lemma descending_linear_insert:
  fixes f :: "'a \<Rightarrow> 'k::linorder"
  assumes "sorted_wrt (\<lambda>a b. f b \<le> f a) es"
  shows "sorted_wrt (\<lambda>a b. f b \<le> f a) (linear_insert (\<lambda>a b. f a < f b) v es)"
  using assms
proof (induction es)
  case Nil
  then show ?case by simp
next
  case (Cons e es)
  show ?case
  proof (cases "f v < f e")
    case True
    with Cons show ?thesis
      by (auto simp: set_linear_insert)
  next
    case False
    with Cons show ?thesis
      by (auto intro: order_trans)
  qed
qed

lemma sorted_insertion_sort:
  fixes f :: "'a \<Rightarrow> 'k::linorder"
  assumes "sorted_wrt (\<lambda>a b. f b \<le> f a) prefix"
  shows "sorted (map f (insertion_sort (\<lambda>a b. f a < f b) prefix xs))"
  using assms
proof (induction xs arbitrary: prefix)
  case Nil
  then show ?case
    by (simp add: sorted_map sorted_wrt_rev)
next
  case (Cons v rest)
  from Cons.prems have "sorted_wrt (\<lambda>a b. f b \<le> f a) (linear_insert (\<lambda>a b. f a < f b) v prefix)"
    by (rule descending_linear_insert)
  then show ?case
    using Cons.IH by simp
qed

lemma sorted_std_sort:
  fixes f :: "'a \<Rightarrow> 'k::linorder"
  shows "sorted (map f (std_sort (\<lambda>a b. f a < f b) xs))"
  by (simp add: std_sort_def sorted_insertion_sort)

lemma rowset_less_comp_id: "rowset_less = (\<lambda>a b. comp_id a < comp_id b)"
  by (simp add: rowset_less_def fun_eq_iff)

lemma sorted_sort_rowsets: "sorted (map comp_id (snd (sort_rowsets rowsets)))"
  by (simp add: sort_rowsets_def rowset_less_comp_id sorted_std_sort)

lemma mset_sort_rowsets: "mset (snd (sort_rowsets rowsets)) = mset rowsets"
  by (simp add: sort_rowsets_def mset_std_sort)

lemma comp_id_scenario: "comp_id R3 = 10" "comp_id R4 = 9" "comp_id R5 = 10"
  by (simp_all add: comp_id_def R3_def R4_def R5_def)

text \<open>
  Two lists with the same rowsets, both in ascending order of a key that no two of the
  rowsets share, are the same list.
\<close>

lemma sorted_key_unique:
  fixes f :: "'a \<Rightarrow> 'k::linorder"
  assumes "sorted (map f xs)" "sorted (map f ys)" "distinct (map f xs)" "mset xs = mset ys"
  shows "xs = ys"
proof -
  have m: "mset (map f xs) = mset (map f ys)"
    using assms(4) by simp
  then have d: "distinct (map f ys)"
    using assms(3) by (metis mset_eq_imp_distinct_iff)
  have s: "set (map f xs) = set (map f ys)"
    using m by (metis set_mset_mset)
  have "map f xs = map f ys"
    using assms(1,2,3) d s by (auto intro: sorted_distinct_set_unique)
  moreover have "inj_on f (set xs \<union> set ys)"
    using assms(3,4) by (metis distinct_map mset_eq_setD sup.idem)
  ultimately show ?thesis
    by (simp add: inj_on_map_eq_map)
qed

text \<open>
  The sorted vector meets the postcondition of \<^verbatim>\<open>std::sort\<close>: no rowset is smaller,
  under the comparator, than one before it. Whatever vector meets it is in ascending
  order of the comparison id.
\<close>

lemma ascending_of_postcondition:
  "sorted_wrt (\<lambda>a b. \<not> rowset_less b a) ys \<Longrightarrow> sorted (map comp_id ys)"
  by (simp add: rowset_less_def not_less sorted_map)

lemma sort_rowsets_postcondition:
  "sorted_wrt (\<lambda>a b. \<not> rowset_less b a) (snd (sort_rowsets rowsets))"
  using sorted_sort_rowsets [of rowsets] by (simp add: rowset_less_def not_less sorted_map)

lemma sorted_scenario: "snd (sort_rowsets [R3, R4]) = [R4, R3]"
  by (simp add: sort_rowsets_def std_sort_def rowset_less_def comp_id_scenario)

section \<open>The claims about sort_rowsets\<close>

text \<open>
  C1. For every list of rowsets, \<open>sort_rowsets\<close> returns OK and leaves the same rowsets
  in ascending order of their comparison id (the max compact input rowset id when the
  rowset has one, its own id otherwise). In particular R3 (own id 7, max compact input
  rowset id 10) is placed after R4 (id 9, no compaction lineage), whichever of the two
  comes first in the input.
\<close>

theorem sort_rowsets_ascending_comp_id:
  "fst (sort_rowsets rowsets) = OK \<and>
   mset (snd (sort_rowsets rowsets)) = mset rowsets \<and>
   sorted (map comp_id (snd (sort_rowsets rowsets))) \<and>
   sort_rowsets [R3, R4] = (OK, [R4, R3]) \<and>
   sort_rowsets [R4, R3] = (OK, [R4, R3])"
proof -
  have "fst (sort_rowsets rowsets) = OK"
    by (simp add: sort_rowsets_def)
  moreover have "sort_rowsets [R3, R4] = (OK, [R4, R3])"
    by (simp add: sort_rowsets_def std_sort_def rowset_less_def comp_id_scenario)
  moreover have "sort_rowsets [R4, R3] = (OK, [R4, R3])"
    by (simp add: sort_rowsets_def std_sort_def rowset_less_def comp_id_scenario)
  ultimately show ?thesis
    using mset_sort_rowsets sorted_sort_rowsets by blast
qed

text \<open>
  C3, as stated, fails. The comparator reads the comparison ids and nothing else, so
  two rowsets with the same comparison id are equivalent for the sort and nothing
  breaks the tie: R3 and R5 both have the comparison id 10, and each of the two input
  orders comes back unchanged. Their raw ids (7 and 10) play no part.
\<close>

theorem sort_rowsets_ties_counterexample:
  "mset [R5, R3] = mset [R3, R5] \<and> comp_id R3 = comp_id R5 \<and>
   snd (sort_rowsets [R3, R5]) = [R3, R5] \<and> snd (sort_rowsets [R5, R3]) = [R5, R3] \<and>
   snd (sort_rowsets [R3, R5]) \<noteq> snd (sort_rowsets [R5, R3])"
  by (simp add: sort_rowsets_def std_sort_def rowset_less_def comp_id_scenario)
     (simp add: R3_def R5_def)

text \<open>
  C3, amended. For every list of rowsets whose comparison ids are pairwise distinct,
  the output of \<open>sort_rowsets\<close> does not depend on the order of the input: any two
  permutations of the list yield the same sorted sequence.
\<close>

theorem sort_rowsets_order_independent:
  assumes "distinct (map comp_id xs)" "mset ys = mset xs"
  shows "sort_rowsets ys = sort_rowsets xs"
proof -
  let ?sx = "snd (sort_rowsets xs)" and ?sy = "snd (sort_rowsets ys)"
  have "mset (map comp_id ?sx) = mset (map comp_id xs)"
    by (simp add: mset_sort_rowsets)
  then have "distinct (map comp_id ?sx)"
    using assms(1) by (metis mset_eq_imp_distinct_iff)
  moreover have "mset ?sx = mset ?sy"
    by (simp add: mset_sort_rowsets assms(2))
  ultimately have "?sx = ?sy"
    using sorted_sort_rowsets sorted_key_unique by blast
  then show ?thesis
    by (simp add: sort_rowsets_def)
qed

theorem sort_rowsets_order_independent_witness:
  "distinct (map comp_id [R3, R4]) \<and> mset [R4, R3] = mset [R3, R4] \<and>
   sort_rowsets [R4, R3] = sort_rowsets [R3, R4]"
proof -
  have d: "distinct (map comp_id [R3, R4])"
    by (simp add: comp_id_scenario)
  have m: "mset [R4, R3] = mset [R3, R4]"
    by simp
  show ?thesis
    using d m sort_rowsets_order_independent [OF d m] by simp
qed

section \<open>Properties of the loop over the rowsets\<close>

lemma for_each_rowset_prefix:
  "for_each_rowset g h rs w = (st, opened, handled, w') \<Longrightarrow>
   map fst opened = take (length opened) rs \<and> map fst handled = take (length handled) rs"
  by (induction rs arbitrary: w st opened handled w')
     (auto split: prod.splits sum.splits Status.splits)

lemma for_each_rowset_complete:
  "for_each_rowset g h rs w = (st, opened, handled, w') \<Longrightarrow>
   \<forall>r\<in>set rs. \<forall>w. \<exists>itrs w1. g r w = (Inr itrs, w1) \<Longrightarrow> \<forall>c\<in>set handled. snd c = OK \<Longrightarrow>
   st = OK \<and> map fst handled = rs \<and> map fst opened = rs"
proof (induction rs arbitrary: w st opened handled w')
  case Nil
  then show ?case by simp
next
  case (Cons r rs)
  from Cons.prems(2) obtain itrs w1 where g: "g r w = (Inr itrs, w1)"
    by fastforce
  show ?case
  proof (cases "h itrs [] [] (rowset_id r) w1")
    case (Pair s w2)
    show ?thesis
    proof (cases s)
      case OK
      obtain st2 o2 h2 w3 where rec: "for_each_rowset g h rs w2 = (st2, o2, h2, w3)"
        by (metis prod_cases4)
      with Cons.prems g Pair OK have eq: "st = st2" "opened = (r, None) # o2" "handled = (r, OK) # h2"
        by auto
      have "st2 = OK \<and> map fst h2 = rs \<and> map fst o2 = rs"
        using Cons.IH [OF rec] Cons.prems(2,3) eq by auto
      then show ?thesis using eq by simp
    next
      case (Error e)
      with Cons.prems g Pair show ?thesis by auto
    qed
  qed
qed

lemma for_each_rowset_open_failed:
  "for_each_rowset g h rs w = (st, opened, handled, w') \<Longrightarrow>
   k < length opened \<Longrightarrow> snd (opened ! k) = Some e \<Longrightarrow>
   st = Error e \<and> length opened = Suc k \<and> length handled = k"
proof (induction rs arbitrary: w st opened handled w' k)
  case Nil
  then show ?case by simp
next
  case (Cons r rs)
  show ?case
  proof (cases "g r w")
    case (Pair res w1)
    show ?thesis
    proof (cases res)
      case (Inl e')
      with Cons.prems Pair show ?thesis by auto
    next
      case (Inr itrs)
      show ?thesis
      proof (cases "h itrs [] [] (rowset_id r) w1")
        case hp: (Pair s w2)
        show ?thesis
        proof (cases s)
          case OK
          obtain st2 o2 h2 w3 where rec: "for_each_rowset g h rs w2 = (st2, o2, h2, w3)"
            by (metis prod_cases4)
          with Cons.prems(1) Pair Inr hp OK
          have eq: "st = st2" "opened = (r, None) # o2" "handled = (r, OK) # h2"
            by auto
          from Cons.prems(2,3) eq obtain k' where k': "k = Suc k'" "k' < length o2" "snd (o2 ! k') = Some e"
            by (cases k) auto
          from Cons.IH [OF rec k'(2,3)] show ?thesis
            using eq k' by simp
        next
          case (Error e')
          with Cons.prems Pair Inr hp show ?thesis by auto
        qed
      qed
    qed
  qed
qed

lemma rowset_iterator_run:
  "rowset_iterator get_rowsets get_iters this pkey_schema handler w =
   for_each_rowset (get_iters pkey_schema) handler (snd (sort_rowsets (get_rowsets (m_metadata this)))) w"
  by (simp add: rowset_iterator_def sort_rowsets_def)

lemma run_record:
  "rowset_iterator (\<lambda>m. [R3, R4]) open_always recover0 () handler_record [] =
   (OK, [(R4, None), (R3, None)], [(R4, OK), (R3, OK)], [9, 7])"
  unfolding rowset_iterator_run sorted_scenario
  by (simp add: open_always_def handler_record_def rowset_id_def R3_def R4_def)

lemma run_handler_fail:
  "rowset_iterator (\<lambda>m. [R3, R4]) open_always recover0 () handler_fail [] =
   (Error (InternalError ''handler''), [(R4, None)], [(R4, Error (InternalError ''handler''))], [9])"
  unfolding rowset_iterator_run sorted_scenario
  by (simp add: open_always_def handler_fail_def rowset_id_def R3_def R4_def)

lemma run_open_fail:
  "rowset_iterator (\<lambda>m. [R3, R4]) (open_fail_on R3) recover0 () handler_record [] =
   (Error (IOError ''segment''), [(R4, None), (R3, Some (IOError ''segment''))], [(R4, OK)], [9])"
  unfolding rowset_iterator_run sorted_scenario
  by (simp add: open_fail_on_def handler_record_def rowset_id_def R3_def R4_def)

lemma mset_take_subset: "mset (take n xs) \<subseteq># mset xs"
proof -
  have "mset xs = mset (take n xs) + mset (drop n xs)"
    by (metis append_take_drop_id mset_append)
  then show ?thesis
    by simp
qed

lemma handled_rowsets_prefix:
  "handled_rowsets (rowset_iterator get_rowsets get_iters this pkey_schema handler w) =
   take (length (handled_rowsets (rowset_iterator get_rowsets get_iters this pkey_schema handler w)))
     (snd (sort_rowsets (get_rowsets (m_metadata this))))"
proof -
  let ?rs = "snd (sort_rowsets (get_rowsets (m_metadata this)))"
  obtain st opened handled w' where
    run: "for_each_rowset (get_iters pkey_schema) handler ?rs w = (st, opened, handled, w')"
    by (metis prod_cases4)
  have h: "map fst handled = take (length (map fst handled)) ?rs"
    unfolding length_map using for_each_rowset_prefix [OF run] by blast
  show ?thesis
    unfolding rowset_iterator_run run handled_rowsets_def handler_calls_def
    by (simp only: fst_conv snd_conv) (rule h)
qed

lemma rowset_iterator_complete:
  assumes "\<forall>r\<in>set (get_rowsets (m_metadata this)). \<forall>w. \<exists>itrs w1. get_iters pkey_schema r w = (Inr itrs, w1)"
    and "\<forall>c\<in>set (handler_calls (rowset_iterator get_rowsets get_iters this pkey_schema handler w)). snd c = OK"
  shows "fst (rowset_iterator get_rowsets get_iters this pkey_schema handler w) = OK \<and>
    handled_rowsets (rowset_iterator get_rowsets get_iters this pkey_schema handler w) =
      snd (sort_rowsets (get_rowsets (m_metadata this)))"
proof -
  let ?rs = "snd (sort_rowsets (get_rowsets (m_metadata this)))"
  obtain st opened handled w' where
    run: "for_each_rowset (get_iters pkey_schema) handler ?rs w = (st, opened, handled, w')"
    by (metis prod_cases4)
  have "set ?rs = set (get_rowsets (m_metadata this))"
    by (metis mset_sort_rowsets set_mset_mset)
  with assms(1) have opens: "\<forall>r\<in>set ?rs. \<forall>w. \<exists>itrs w1. get_iters pkey_schema r w = (Inr itrs, w1)"
    by simp
  from assms(2) have oks: "\<forall>c\<in>set handled. snd c = OK"
    by (simp add: rowset_iterator_run run handler_calls_def)
  from for_each_rowset_complete [OF run opens oks]
  have "st = OK" "map fst handled = ?rs"
    by simp_all
  then show ?thesis
    by (simp add: rowset_iterator_run run handled_rowsets_def handler_calls_def)
qed

section \<open>The claims about rowset_iterator\<close>

text \<open>
  C2, as stated, fails. Opening every rowset's segment iterators is not enough for the
  handler to be invoked on every rowset: the loop returns on line 88 as soon as the
  handler itself returns an error. With the rowsets R3 and R4, a reader that opens
  both and a handler that fails, the handler is invoked on R4 only.
\<close>

theorem rowset_iterator_handler_failure_counterexample:
  "open_always () R3 = (\<lambda>w. (Inr [], w)) \<and> open_always () R4 = (\<lambda>w. (Inr [], w)) \<and>
   handled_rowsets (rowset_iterator (\<lambda>m. [R3, R4]) open_always recover0 () handler_fail []) = [R4] \<and>
   mset (handled_rowsets (rowset_iterator (\<lambda>m. [R3, R4]) open_always recover0 () handler_fail [])) \<noteq> mset [R3, R4]"
  by (simp add: run_handler_fail handled_rowsets_def handler_calls_def open_always_def fun_eq_iff)

text \<open>
  C2, amended. On every metadata snapshot the rowsets on which \<open>rowset_iterator\<close>
  invokes the handler are, in the order of the invocations, an initial segment of the
  output of \<open>sort_rowsets\<close>: their comparison ids never decrease, and no rowset of
  the snapshot is handled more often than it occurs there. This holds for every reader
  and every handler. When moreover all rowsets of the snapshot succeed in opening
  segment iterators and the handler returns OK each time it is invoked,
  \<open>rowset_iterator\<close> returns OK and the segment is the whole output: the handler is
  invoked exactly once per rowset of the snapshot.
\<close>

theorem rowset_iterator_handles_sorted_rowsets:
  "handled_rowsets (rowset_iterator get_rowsets get_iters this pkey_schema handler w) =
     take (length (handled_rowsets (rowset_iterator get_rowsets get_iters this pkey_schema handler w)))
       (snd (sort_rowsets (get_rowsets (m_metadata this)))) \<and>
   sorted (map comp_id (handled_rowsets (rowset_iterator get_rowsets get_iters this pkey_schema handler w))) \<and>
   mset (handled_rowsets (rowset_iterator get_rowsets get_iters this pkey_schema handler w)) \<subseteq>#
     mset (get_rowsets (m_metadata this)) \<and>
   ((\<forall>r\<in>set (get_rowsets (m_metadata this)). \<forall>w. \<exists>itrs w1. get_iters pkey_schema r w = (Inr itrs, w1)) \<and>
    (\<forall>c\<in>set (handler_calls (rowset_iterator get_rowsets get_iters this pkey_schema handler w)). snd c = OK) \<longrightarrow>
    fst (rowset_iterator get_rowsets get_iters this pkey_schema handler w) = OK \<and>
    handled_rowsets (rowset_iterator get_rowsets get_iters this pkey_schema handler w) =
      snd (sort_rowsets (get_rowsets (m_metadata this))) \<and>
    mset (handled_rowsets (rowset_iterator get_rowsets get_iters this pkey_schema handler w)) =
      mset (get_rowsets (m_metadata this)))"
proof -
  let ?run = "rowset_iterator get_rowsets get_iters this pkey_schema handler w"
  let ?rs = "snd (sort_rowsets (get_rowsets (m_metadata this)))"
  have p: "handled_rowsets ?run = take (length (handled_rowsets ?run)) ?rs"
    by (rule handled_rowsets_prefix)
  have "sorted (take (length (handled_rowsets ?run)) (map comp_id ?rs))"
    using sorted_sort_rowsets by (rule sorted_wrt_take)
  then have s: "sorted (map comp_id (handled_rowsets ?run))"
    using p by (metis take_map)
  have "mset (take (length (handled_rowsets ?run)) ?rs) \<subseteq># mset ?rs"
    by (rule mset_take_subset)
  then have m: "mset (handled_rowsets ?run) \<subseteq># mset (get_rowsets (m_metadata this))"
    using p by (simp add: mset_sort_rowsets)
  have "fst ?run = OK \<and> handled_rowsets ?run = ?rs \<and>
      mset (handled_rowsets ?run) = mset (get_rowsets (m_metadata this))"
    if "\<forall>r\<in>set (get_rowsets (m_metadata this)). \<forall>w. \<exists>itrs w1. get_iters pkey_schema r w = (Inr itrs, w1)"
      and "\<forall>c\<in>set (handler_calls ?run). snd c = OK"
    using rowset_iterator_complete [OF that] by (simp add: mset_sort_rowsets)
  with p s m show ?thesis
    by blast
qed

theorem rowset_iterator_handles_sorted_rowsets_witness:
  "handled_rowsets (rowset_iterator (\<lambda>m. [R3, R4]) open_always recover0 () handler_record []) = [R4, R3] \<and>
   fst (rowset_iterator (\<lambda>m. [R3, R4]) open_always recover0 () handler_record []) = OK \<and>
   sorted (map comp_id (handled_rowsets (rowset_iterator (\<lambda>m. [R3, R4]) open_always recover0 () handler_record []))) \<and>
   handled_rowsets (rowset_iterator (\<lambda>m. [R3, R4]) open_always recover0 () handler_fail []) = [R4] \<and>
   sorted (map comp_id (handled_rowsets (rowset_iterator (\<lambda>m. [R3, R4]) open_always recover0 () handler_fail [])))"
proof -
  have a: "\<forall>r\<in>set ((\<lambda>m. [R3, R4]) (m_metadata recover0)). \<forall>w. \<exists>itrs w1. open_always () r w = (Inr itrs, w1)"
    by (simp add: open_always_def)
  have b: "\<forall>c\<in>set (handler_calls (rowset_iterator (\<lambda>m. [R3, R4]) open_always recover0 () handler_record [])). snd c = OK"
    by (simp add: run_record handler_calls_def)
  note ok_run = rowset_iterator_handles_sorted_rowsets
        [where get_rowsets = "\<lambda>m. [R3, R4]" and get_iters = open_always and this = recover0
           and pkey_schema = "()" and handler = handler_record and w = "[]"]
  note failing_run = rowset_iterator_handles_sorted_rowsets
        [where get_rowsets = "\<lambda>m. [R3, R4]" and get_iters = open_always and this = recover0
           and pkey_schema = "()" and handler = handler_fail and w = "[]"]
  have "fst (rowset_iterator (\<lambda>m. [R3, R4]) open_always recover0 () handler_record []) = OK \<and>
      handled_rowsets (rowset_iterator (\<lambda>m. [R3, R4]) open_always recover0 () handler_record []) =
        snd (sort_rowsets [R3, R4])"
    using ok_run a b by blast
  moreover have "sorted (map comp_id
      (handled_rowsets (rowset_iterator (\<lambda>m. [R3, R4]) open_always recover0 () handler_record [])))"
    using ok_run by blast
  moreover have "sorted (map comp_id
      (handled_rowsets (rowset_iterator (\<lambda>m. [R3, R4]) open_always recover0 () handler_fail [])))"
    using failing_run by blast
  moreover have "handled_rowsets (rowset_iterator (\<lambda>m. [R3, R4]) open_always recover0 () handler_fail []) = [R4]"
    by (simp add: run_handler_fail handled_rowsets_def handler_calls_def)
  ultimately show ?thesis
    by (simp add: sorted_scenario)
qed

text \<open>
  C5. If the call of \<^verbatim>\<open>get_each_segment_iterator\<close> on the k-th rowset of the sorted
  sequence fails with an error, then \<open>rowset_iterator\<close> returns that error, the
  iterators of no later rowset are asked for (the rowsets asked are the first k + 1 of
  the sorted sequence), and the handler has been invoked on the k rowsets before the
  k-th and on no other.
\<close>

theorem rowset_iterator_open_failure:
  assumes "k < length (open_calls (rowset_iterator get_rowsets get_iters this pkey_schema handler w))"
    and "snd (open_calls (rowset_iterator get_rowsets get_iters this pkey_schema handler w) ! k) = Some e"
  shows "fst (rowset_iterator get_rowsets get_iters this pkey_schema handler w) = Error e \<and>
    fst (open_calls (rowset_iterator get_rowsets get_iters this pkey_schema handler w) ! k) =
      snd (sort_rowsets (get_rowsets (m_metadata this))) ! k \<and>
    opened_rowsets (rowset_iterator get_rowsets get_iters this pkey_schema handler w) =
      take (Suc k) (snd (sort_rowsets (get_rowsets (m_metadata this)))) \<and>
    handled_rowsets (rowset_iterator get_rowsets get_iters this pkey_schema handler w) =
      take k (snd (sort_rowsets (get_rowsets (m_metadata this))))"
proof -
  let ?rs = "snd (sort_rowsets (get_rowsets (m_metadata this)))"
  obtain st opened handled w' where
    run: "for_each_rowset (get_iters pkey_schema) handler ?rs w = (st, opened, handled, w')"
    by (metis prod_cases4)
  from assms have k: "k < length opened" "snd (opened ! k) = Some e"
    by (simp_all add: rowset_iterator_run run open_calls_def)
  from for_each_rowset_open_failed [OF run k]
  have f: "st = Error e" "length opened = Suc k" "length handled = k"
    by simp_all
  from for_each_rowset_prefix [OF run] f
  have p: "map fst opened = take (Suc k) ?rs" "map fst handled = take k ?rs"
    by simp_all
  have "length (take (Suc k) ?rs) = Suc k"
    using p(1) f(2) by (metis length_map)
  then have "k < length ?rs"
    by simp
  then have "fst (opened ! k) = ?rs ! k"
    using p(1) k(1) by (metis lessI nth_map nth_take)
  with f p show ?thesis
    by (simp add: rowset_iterator_run run open_calls_def opened_rowsets_def
        handled_rowsets_def handler_calls_def)
qed

theorem rowset_iterator_open_failure_witness:
  "rowset_iterator (\<lambda>m. [R3, R4]) (open_fail_on R3) recover0 () handler_record [] =
     (Error (IOError ''segment''), [(R4, None), (R3, Some (IOError ''segment''))], [(R4, OK)], [9]) \<and>
   opened_rowsets (rowset_iterator (\<lambda>m. [R3, R4]) (open_fail_on R3) recover0 () handler_record []) = [R4, R3] \<and>
   handled_rowsets (rowset_iterator (\<lambda>m. [R3, R4]) (open_fail_on R3) recover0 () handler_record []) = [R4]"
proof -
  have a: "1 < length (open_calls (rowset_iterator (\<lambda>m. [R3, R4]) (open_fail_on R3) recover0 () handler_record []))"
    by (simp add: run_open_fail open_calls_def)
  have b: "snd (open_calls (rowset_iterator (\<lambda>m. [R3, R4]) (open_fail_on R3) recover0 () handler_record []) ! 1) = Some (IOError ''segment'')"
    by (simp add: run_open_fail open_calls_def)
  show ?thesis
    using rowset_iterator_open_failure [OF a b] by (simp add: sorted_scenario run_open_fail)
qed

section \<open>The claim about finalize_delvec\<close>

lemma delvecs_append_delvecs:
  "delvecs (append_delvecs v new_deletes b) =
   delvecs b @ map (\<lambda>new_delete. (fst new_delete, DelVector_init v (snd new_delete))) new_deletes"
  by (induction new_deletes arbitrary: b) (simp_all add: append_delvec_def)

lemma appended_delvecs_eq:
  "appended_delvecs new_deletes this =
   map (\<lambda>new_delete. (fst new_delete, DelVector_init (version (m_metadata this)) (snd new_delete))) new_deletes"
  by (simp add: appended_delvecs_def finalize_delvec_def delvecs_append_delvecs)

lemma delvecs_of_absent:
  "rid \<notin> fst ` set new_deletes \<Longrightarrow> delvecs_of rid (map (\<lambda>p. (fst p, f (snd p))) new_deletes) = []"
  by (induction new_deletes) (auto simp: delvecs_of_def)

lemma delvecs_of_present:
  "distinct (map fst new_deletes) \<Longrightarrow> (rid, del_ids) \<in> set new_deletes \<Longrightarrow>
   delvecs_of rid (map (\<lambda>p. (fst p, f (snd p))) new_deletes) = [f del_ids]"
proof (induction new_deletes)
  case Nil
  then show ?case by simp
next
  case (Cons p ps)
  show ?case
  proof (cases "fst p = rid")
    case True
    with Cons.prems have "snd p = del_ids" "rid \<notin> fst ` set ps"
      by (cases p; force)+
    with True delvecs_of_absent [of rid ps f] show ?thesis
      by (simp add: delvecs_of_def)
  next
    case False
    with Cons show ?thesis
      by (auto simp: delvecs_of_def)
  qed
qed

text \<open>
  C4. For every DeletesMap, \<open>finalize_delvec\<close> returns OK and appends to the builder's
  queue exactly one DelVector for each rowset id with a non-empty row-id list; that
  DelVector has the version of the metadata and the rowset's row ids in ascending
  order. A rowset id that is not a key of the DeletesMap gets no DelVector. (The loop
  makes one DelVector per entry of the map, so a key whose list is empty gets one
  too, with no row ids.)
\<close>

theorem finalize_delvec_one_per_rowset:
  assumes "distinct (map fst new_deletes)"
  shows "fst (finalize_delvec new_deletes this) = OK \<and>
    delvecs (m_builder (snd (finalize_delvec new_deletes this))) =
      delvecs (m_builder this) @ appended_delvecs new_deletes this \<and>
    (\<forall>rid del_ids. (rid, del_ids) \<in> set new_deletes \<and> del_ids \<noteq> [] \<longrightarrow>
       delvecs_of rid (appended_delvecs new_deletes this) =
         [\<lparr>dv_version = version (m_metadata this), dv_rowids = sort del_ids\<rparr>]) \<and>
    (\<forall>rid. rid \<notin> fst ` set new_deletes \<longrightarrow>
       delvecs_of rid (appended_delvecs new_deletes this) = [])"
proof -
  have "fst (finalize_delvec new_deletes this) = OK"
    by (simp add: finalize_delvec_def)
  moreover have "delvecs (m_builder (snd (finalize_delvec new_deletes this))) =
      delvecs (m_builder this) @ appended_delvecs new_deletes this"
    by (simp add: appended_delvecs_def finalize_delvec_def delvecs_append_delvecs)
  moreover have "delvecs_of rid (appended_delvecs new_deletes this) =
         [\<lparr>dv_version = version (m_metadata this), dv_rowids = sort del_ids\<rparr>]"
    if "(rid, del_ids) \<in> set new_deletes" for rid del_ids
    using delvecs_of_present [OF assms that, of "DelVector_init (version (m_metadata this))"]
    by (simp add: appended_delvecs_eq DelVector_init_def)
  moreover have "delvecs_of rid (appended_delvecs new_deletes this) = []"
    if "rid \<notin> fst ` set new_deletes" for rid
    using delvecs_of_absent [OF that] by (simp add: appended_delvecs_eq)
  ultimately show ?thesis
    by blast
qed

theorem finalize_delvec_one_per_rowset_witness:
  "distinct (map fst [(1, [3, 0]), (4, [2 :: uint32]) :: uint32 \<times> uint32 list]) \<and>
   delvecs (m_builder (snd (finalize_delvec [(1, [3, 0]), (4, [2])] recover0))) =
     [(1, \<lparr>dv_version = 5, dv_rowids = [0, 3]\<rparr>), (4, \<lparr>dv_version = 5, dv_rowids = [2]\<rparr>)] \<and>
   delvecs_of 1 (appended_delvecs [(1, [3, 0]), (4, [2])] recover0) = [\<lparr>dv_version = 5, dv_rowids = [0, 3]\<rparr>] \<and>
   delvecs_of 2 (appended_delvecs [(1, [3, 0]), (4, [2])] recover0) = []"
proof -
  have d: "distinct (map fst [(1, [3, 0]), (4, [2 :: uint32]) :: uint32 \<times> uint32 list])"
    by simp
  have a: "appended_delvecs [(1, [3, 0]), (4, [2])] recover0 =
     [(1, \<lparr>dv_version = 5, dv_rowids = [0, 3]\<rparr>), (4, \<lparr>dv_version = 5, dv_rowids = [2]\<rparr>)]"
    by (simp add: appended_delvecs_eq DelVector_init_def recover0_def)
  show ?thesis
    using d finalize_delvec_one_per_rowset [OF d, of recover0] a
    by (simp add: recover0_def delvecs_of_def)
qed

section \<open>The claims about pre_cleanup\<close>

lemma decimal_10042: "decimal 10042 = ''10042''"
  by (simp add: decimal_def decimal_nat.simps digit_def)

lemma run_meta_fails:
  "pre_cleanup evict_found local_store remove_meta_fails remove_all_ok recover0 [] =
     (Error (IOError ''rocksdb''),
      recover0\<lparr>m_metadata := \<lparr>version = 5, schema = (), delvec_meta = None\<rparr>\<rparr>, [],
      [Clear_delvec_meta, Try_remove_primary_index_cache 10042, Get_persistent_index_store 10042,
       Remove_tablet_persistent_index_meta \<lparr>persistent_index_path = ''/data/persistent''\<rparr> 10042])"
  by (simp add: pre_cleanup_def Let_def local_store_def evict_found_def remove_meta_fails_def
      clear_delvec_meta_def recover0_def)

lemma path_10042: "tablet_pk_path \<lparr>persistent_index_path = ''/data/persistent''\<rparr> 10042 = ''/data/persistent/10042/''"
  by (simp add: tablet_pk_path_def decimal_10042)

lemma run_remove_all_fails:
  "pre_cleanup evict_found local_store remove_meta_ok remove_all_fails recover0 [] =
     (Error (IOError ''/data/persistent/10042/''),
      recover0\<lparr>m_metadata := \<lparr>version = 5, schema = (), delvec_meta = None\<rparr>\<rparr>, [''meta''],
      [Clear_delvec_meta, Try_remove_primary_index_cache 10042, Get_persistent_index_store 10042,
       Remove_tablet_persistent_index_meta \<lparr>persistent_index_path = ''/data/persistent''\<rparr> 10042,
       Remove_all ''/data/persistent/10042/''])"
  by (simp add: pre_cleanup_def Let_def local_store_def evict_found_def remove_meta_ok_def
      remove_all_fails_def clear_delvec_meta_def recover0_def path_10042)

text \<open>
  C6. When the lookup of the persistent-index store returns \<^verbatim>\<open>nullptr\<close>,
  \<open>pre_cleanup\<close> returns OK; the calls it made are the clearing of the delete-vector
  metadata, the cache eviction and the lookup, so neither the removal of the index meta
  nor the deletion of the files was attempted, and the world is as the eviction left it.
\<close>

theorem pre_cleanup_without_store:
  assumes "get_store (m_tablet_id this) (snd (evict (m_tablet_id this) w)) = None"
  shows "cleanup_status (pre_cleanup evict get_store remove_meta remove_all this w) = OK \<and>
    cleanup_calls (pre_cleanup evict get_store remove_meta remove_all this w) =
      [Clear_delvec_meta, Try_remove_primary_index_cache (m_tablet_id this),
       Get_persistent_index_store (m_tablet_id this)] \<and>
    filter is_removal (cleanup_calls (pre_cleanup evict get_store remove_meta remove_all this w)) = [] \<and>
    cleanup_world (pre_cleanup evict get_store remove_meta remove_all this w) =
      snd (evict (m_tablet_id this) w)"
  using assms
  by (simp add: pre_cleanup_def Let_def cleanup_status_def cleanup_calls_def cleanup_world_def is_removal_def)

theorem pre_cleanup_without_store_witness:
  "no_store (m_tablet_id recover0) (snd (evict_found (m_tablet_id recover0) [])) = None \<and>
   pre_cleanup evict_found no_store remove_meta_fails remove_all_fails recover0 [] =
     (OK, recover0\<lparr>m_metadata := \<lparr>version = 5, schema = (), delvec_meta = None\<rparr>\<rparr>, [],
      [Clear_delvec_meta, Try_remove_primary_index_cache 10042, Get_persistent_index_store 10042])"
proof -
  have n: "no_store (m_tablet_id recover0) (snd (evict_found (m_tablet_id recover0) [])) = None"
    by (simp add: no_store_def)
  have "cleanup_status (pre_cleanup evict_found no_store remove_meta_fails remove_all_fails recover0 []) = OK"
    using pre_cleanup_without_store
      [where get_store = no_store and this = recover0 and evict = evict_found and w = "[]"
         and remove_meta = remove_meta_fails and remove_all = remove_all_fails, OF n]
    by simp
  then show ?thesis
    using n by (simp add: pre_cleanup_def Let_def cleanup_status_def no_store_def evict_found_def
        clear_delvec_meta_def recover0_def)
qed

text \<open>
  C7. What the cache eviction returns never affects \<open>pre_cleanup\<close>: two evictions that
  act alike on the world and return different results, of whatever types, give the
  same status (and the same object, world and calls).
\<close>

theorem pre_cleanup_ignores_eviction_result:
  "pre_cleanup (\<lambda>tid w. (r, evict_world tid w)) get_store remove_meta remove_all this w =
   pre_cleanup (\<lambda>tid w. (r', evict_world tid w)) get_store remove_meta remove_all this w"
  by (simp add: pre_cleanup_def Let_def)

text \<open>
  C9. \<open>pre_cleanup\<close> clears the delete-vector metadata and attempts the cache eviction
  first, and only then looks the persistent-index store up; the object it returns has
  no delete-vector metadata, whatever the status. So when the removal of the index meta
  fails, or the removal succeeds and the deletion of the index files fails,
  \<open>pre_cleanup\<close> returns that error and the delete-vector metadata stays cleared.
\<close>

theorem pre_cleanup_not_atomic:
  "delvec_meta (m_metadata (cleanup_this (pre_cleanup evict get_store remove_meta remove_all this w))) = None \<and>
   take 3 (cleanup_calls (pre_cleanup evict get_store remove_meta remove_all this w)) =
     [Clear_delvec_meta, Try_remove_primary_index_cache (m_tablet_id this),
      Get_persistent_index_store (m_tablet_id this)] \<and>
   filter touches_store (take 2 (cleanup_calls (pre_cleanup evict get_store remove_meta remove_all this w))) = [] \<and>
   (\<forall>data_dir e w2.
      get_store (m_tablet_id this) (snd (evict (m_tablet_id this) w)) = Some data_dir \<and>
      remove_meta data_dir (m_tablet_id this) (snd (evict (m_tablet_id this) w)) = (Error e, w2) \<longrightarrow>
      cleanup_status (pre_cleanup evict get_store remove_meta remove_all this w) = Error e) \<and>
   (\<forall>data_dir e w2 w3.
      get_store (m_tablet_id this) (snd (evict (m_tablet_id this) w)) = Some data_dir \<and>
      remove_meta data_dir (m_tablet_id this) (snd (evict (m_tablet_id this) w)) = (OK, w2) \<and>
      remove_all (tablet_pk_path data_dir (m_tablet_id this)) w2 = (Error e, w3) \<longrightarrow>
      cleanup_status (pre_cleanup evict get_store remove_meta remove_all this w) = Error e)"
  by (auto simp: pre_cleanup_def cleanup_status_def cleanup_calls_def cleanup_this_def
      clear_delvec_meta_def touches_store_def Let_def split: option.splits prod.splits)

theorem pre_cleanup_not_atomic_witness:
  "delvec_meta (m_metadata recover0) = Some () \<and>
   cleanup_status (pre_cleanup evict_found local_store remove_meta_fails remove_all_ok recover0 []) =
     Error (IOError ''rocksdb'') \<and>
   delvec_meta (m_metadata (cleanup_this
     (pre_cleanup evict_found local_store remove_meta_fails remove_all_ok recover0 []))) = None \<and>
   cleanup_status (pre_cleanup evict_found local_store remove_meta_ok remove_all_fails recover0 []) =
     Error (IOError ''/data/persistent/10042/'') \<and>
   delvec_meta (m_metadata (cleanup_this
     (pre_cleanup evict_found local_store remove_meta_ok remove_all_fails recover0 []))) = None"
proof -
  have a: "local_store (m_tablet_id recover0) (snd (evict_found (m_tablet_id recover0) [])) =
      Some \<lparr>persistent_index_path = ''/data/persistent''\<rparr>"
    by (simp add: local_store_def)
  have b: "remove_meta_fails \<lparr>persistent_index_path = ''/data/persistent''\<rparr> (m_tablet_id recover0)
      (snd (evict_found (m_tablet_id recover0) [])) = (Error (IOError ''rocksdb''), [])"
    by (simp add: remove_meta_fails_def evict_found_def)
  have c: "remove_meta_ok \<lparr>persistent_index_path = ''/data/persistent''\<rparr> (m_tablet_id recover0)
      (snd (evict_found (m_tablet_id recover0) [])) = (OK, [''meta''])"
    by (simp add: remove_meta_ok_def evict_found_def)
  have d: "remove_all_fails (tablet_pk_path \<lparr>persistent_index_path = ''/data/persistent''\<rparr> (m_tablet_id recover0))
      [''meta''] = (Error (IOError ''/data/persistent/10042/''), [''meta''])"
    by (simp add: remove_all_fails_def recover0_def path_10042)
  have "delvec_meta (m_metadata recover0) = Some ()"
    by (simp add: recover0_def)
  then show ?thesis
    using a b c d
      pre_cleanup_not_atomic [where evict = evict_found and get_store = local_store
        and remove_meta = remove_meta_fails and remove_all = remove_all_ok and this = recover0 and w = "[]"]
      pre_cleanup_not_atomic [where evict = evict_found and get_store = local_store
        and remove_meta = remove_meta_ok and remove_all = remove_all_fails and this = recover0 and w = "[]"]
    by blast
qed

section \<open>The claim about the equality of slices with a cached hash\<close>

lemma bytes_equal_iff:
  "bytes_equal mem p1 p2 n \<longleftrightarrow> map mem [p1 ..< p1 + n] = map mem [p2 ..< p2 + n]"
proof (induction n arbitrary: p1 p2)
  case 0
  then show ?case by simp
next
  case (Suc n)
  have "[p ..< p + Suc n] = p # [Suc p ..< Suc p + n]" for p
    by (simp add: upt_conv_Cons)
  then show ?case
    using Suc.IH [of "Suc p1" "Suc p2"] by simp
qed

lemma length_slice_bytes: "length (slice_bytes mem s) = size' s"
  by (simp add: slice_bytes_def)

lemma memequal_iff:
  "memequal mem (data x) (size' x) (data y) (size' y) \<longleftrightarrow> slice_bytes mem x = slice_bytes mem y"
proof
  assume "memequal mem (data x) (size' x) (data y) (size' y)"
  then show "slice_bytes mem x = slice_bytes mem y"
    by (auto simp: memequal_def bytes_equal_iff slice_bytes_def)
next
  assume eq: "slice_bytes mem x = slice_bytes mem y"
  then have "size' x = size' y"
    by (metis length_slice_bytes)
  with eq show "memequal mem (data x) (size' x) (data y) (size' y)"
    by (simp add: memequal_def bytes_equal_iff slice_bytes_def)
qed

lemma slice_bytes_SliceWithHash_of: "slice_bytes mem (SliceWithHash_of H mem a) = slice_bytes mem a"
  by (simp add: slice_bytes_def SliceWithHash_of_def)

lemma slice_bytes_TSliceWithHash_of: "slice_bytes mem (TSliceWithHash_of HS seed mem a) = slice_bytes mem a"
  by (simp add: slice_bytes_def TSliceWithHash_of_def)

text \<open>
  C8. For two elements built from slices by the constructor that computes the hash
  (with the same seed, for the seeded form), the equality predicate is true exactly
  when the bytes of the two slices are equal. For any two elements it is true exactly
  when the cached hashes are equal and the bytes are equal, so when two hashes collide
  the comparison of the bytes decides.
\<close>

theorem equal_on_slice_with_hash_iff_bytes:
  "EqualOnSliceWithHash mem (SliceWithHash_of SliceHash mem a) (SliceWithHash_of SliceHash mem b) =
     (slice_bytes mem a = slice_bytes mem b) \<and>
   TEqualOnSliceWithHash mem (TSliceWithHash_of SliceHashWithSeed seed mem a)
       (TSliceWithHash_of SliceHashWithSeed seed mem b) =
     (slice_bytes mem a = slice_bytes mem b) \<and>
   EqualOnSliceWithHash mem x y = (hash x = hash y \<and> slice_bytes mem x = slice_bytes mem y) \<and>
   TEqualOnSliceWithHash mem x y = (hash x = hash y \<and> slice_bytes mem x = slice_bytes mem y)"
proof -
  have "hash (SliceWithHash_of SliceHash mem a) = hash (SliceWithHash_of SliceHash mem b)"
    if "slice_bytes mem a = slice_bytes mem b"
    using that by (simp add: SliceWithHash_of_def)
  moreover have "hash (TSliceWithHash_of SliceHashWithSeed seed mem a) =
      hash (TSliceWithHash_of SliceHashWithSeed seed mem b)"
    if "slice_bytes mem a = slice_bytes mem b"
    using that by (simp add: TSliceWithHash_of_def)
  ultimately show ?thesis
    unfolding EqualOnSliceWithHash_def TEqualOnSliceWithHash_def memequal_iff
      slice_bytes_SliceWithHash_of slice_bytes_TSliceWithHash_of
    by blast
qed

section \<open>The claim about generate_pkey_schema\<close>

lemma fill_pk_columns_eq:
  "i \<le> n \<Longrightarrow> length pk_columns = n \<Longrightarrow>
   fill_pk_columns i n pk_columns = take i pk_columns @ map of_nat [i ..< n]"
proof (induction i n pk_columns rule: fill_pk_columns.induct)
  case (1 i n pk_columns)
  show ?case
  proof (cases "i < n")
    case True
    have "fill_pk_columns i n pk_columns = fill_pk_columns (i + 1) n (pk_columns[i := of_nat i])"
      using True by (simp add: fill_pk_columns.simps [of i])
    also have "\<dots> = take (i + 1) (pk_columns[i := of_nat i]) @ map of_nat [i + 1 ..< n]"
      using "1.IH" [OF True] True "1.prems" by simp
    also have "take (i + 1) (pk_columns[i := of_nat i]) = take i pk_columns @ [of_nat i]"
      using True "1.prems" by (simp add: take_Suc_conv_app_nth)
    finally show ?thesis
      using True by (simp add: upt_conv_Cons)
  next
    case False
    with "1.prems" show ?thesis
      by (simp add: fill_pk_columns.simps [of n])
  qed
qed

lemma generate_pkey_schema_eq:
  "generate_pkey_schema make_tablet_schema num_key_columns convert_schema this =
   convert_schema (make_tablet_schema (schema (m_metadata this)))
     (map of_nat [0 ..< num_key_columns (make_tablet_schema (schema (m_metadata this)))])"
  by (simp add: generate_pkey_schema_def Let_def fill_pk_columns_eq)

text \<open>
  C10. \<open>generate_pkey_schema\<close> converts the tablet schema made from the metadata's
  schema with the column ids 0, 1, ..., num_key_columns - 1, in this order; two
  recovery objects whose metadata have the same schema give the same result.
\<close>

theorem generate_pkey_schema_key_prefix:
  "generate_pkey_schema make_tablet_schema num_key_columns convert_schema this =
     convert_schema (make_tablet_schema (schema (m_metadata this)))
       (map of_nat [0 ..< num_key_columns (make_tablet_schema (schema (m_metadata this)))]) \<and>
   (schema (m_metadata this') = schema (m_metadata this) \<longrightarrow>
     generate_pkey_schema make_tablet_schema num_key_columns convert_schema this' =
     generate_pkey_schema make_tablet_schema num_key_columns convert_schema this)"
  by (simp add: generate_pkey_schema_eq)

theorem generate_pkey_schema_key_prefix_witness:
  "schema (m_metadata recover2) = schema (m_metadata recover1) \<and>
   generate_pkey_schema (\<lambda>pb. pb) snd pick_columns recover1 = [''k1'', ''k2''] \<and>
   generate_pkey_schema (\<lambda>pb. pb) snd pick_columns recover2 =
     generate_pkey_schema (\<lambda>pb. pb) snd pick_columns recover1"
proof -
  have s: "schema (m_metadata recover2) = schema (m_metadata recover1)"
    by (simp add: recover1_def recover2_def)
  have u: "[0 ..< 2] = [0, Suc 0]"
    by (simp add: upt_conv_Cons)
  show ?thesis
    using s generate_pkey_schema_key_prefix [of "\<lambda>pb. pb" snd pick_columns recover1 recover2]
    by (simp add: recover1_def pick_columns_def u)
qed

end
